theory Spec2Isabelle
  imports Main "HOL-Library.Word" "HOL-Library.Sublist"
begin

section \<open>Data model\<close>

type_synonym u8 = "8 word"
type_synonym u16 = "16 word"

text \<open>The screens of the application (\<open>LaserTagState\<close> of \<open>laser_tag_app.h\<close>, as the
  three values \<open>laser_tag_app.c\<close> compares \<open>app->state\<close> with).\<close>

datatype LaserTagState = LaserTagStateSplashScreen | LaserTagStateGame | LaserTagStateGameOver

text \<open>Input events of the platform: \<open>laser_tag_app.c\<close> reads \<open>event.type\<close> and
  \<open>event.key\<close>.\<close>

datatype InputType = InputTypePress | InputTypeRelease | InputTypeShort | InputTypeLong
  | InputTypeRepeat

datatype InputKey = InputKeyUp | InputKeyDown | InputKeyRight | InputKeyLeft | InputKeyOk
  | InputKeyBack

record InputEvent =
  type :: InputType
  key :: InputKey

datatype FuriStatus = FuriStatusOk | FuriStatusErrorTimeout | FuriStatusErrorResource

text \<open>The notification sequences the application requests: two are defined in
  \<open>laser_tag_app.c\<close>, the other three are the platform's.\<close>

datatype NotificationSequence = sequence_vibro_1 | sequence_short_beep
  | sequence_blink_white_100 | sequence_error | sequence_success

text \<open>Calls into the collaborators (notification service, infrared controller, tag reader,
  view, delays) are recorded, in order, in a log carried by the application state. The
  argument of \<open>UpdateBoardStatus\<close> tells whether the controller pointer passed was non-NULL.\<close>

datatype effect = Notification NotificationSequence
  | IrAlloc | IrFree | IrSend | IrReceive | IrPause | IrResume
  | UpdateBoardStatus bool
  | ReaderStart | ReaderStop
  | DelayMs nat
  | ViewUpdate | ViewPortUpdate

text \<open>\<open>struct InfraredController\<close> of \<open>infrared_controller.h\<close>: the three flags. The
  worker, signal and notification pointers are handles of the platform and carry no value
  that \<open>laser_tag_app.c\<close> reads.\<close>

record InfraredController =
  worker_rx_active :: bool
  hit_received :: bool
  processing_signal :: bool

text \<open>Modelled from the spec: \<open>game_state.c\<close> and \<open>game_state.h\<close> are not among the
  sources. The spec's data model has \<open>health\<close> in [0, 100] starting at 100, \<open>ammo\<close> in
  [0, INITIAL_AMMO] starting at INITIAL_AMMO, and \<open>elapsed_time\<close> in seconds.
  \<open>INITIAL_AMMO\<close> is a macro of the missing header: it is a parameter of every definition
  that uses it.\<close>

record GameState =
  health :: nat
  ammo :: nat
  elapsed_time :: nat

text \<open>The platform's message queue, as far as the application uses it: a FIFO of input
  events with the capacity given at allocation, oldest message first.\<close>

record FuriMessageQueue =
  capacity :: nat
  messages :: "InputEvent list"

text \<open>\<open>struct LaserTagApp\<close>. \<open>ir_controller\<close> is \<open>None\<close> for the NULL pointer.
  The handles \<open>gui\<close>, \<open>view_port\<close>, \<open>view\<close>, \<open>timer\<close>, \<open>notifications\<close> and \<open>reader\<close> are non-NULL after
  \<open>laser_tag_app_alloc\<close> succeeded; what is done through them is in \<open>effects\<close>.\<close>

record LaserTagApp =
  event_queue :: FuriMessageQueue
  ir_controller :: "InfraredController option"
  game_state :: GameState
  state :: LaserTagState
  need_redraw :: bool
  effects :: "effect list"

section \<open>GameState operations\<close>

text \<open>Modelled from the spec: \<open>game_state_reset\<close> (\<open>reset()\<close>: all fields to their
  initial values).\<close>

definition game_state_reset :: "nat \<Rightarrow> GameState \<Rightarrow> GameState" where
  "game_state_reset INITIAL_AMMO gs = gs\<lparr>health := 100, ammo := INITIAL_AMMO, elapsed_time := 0\<rparr>"

text \<open>Modelled from the spec: \<open>game_state_decrease_health\<close> (\<open>decreaseHealth(n)\<close>:
  subtract \<open>n\<close>, clamp to 0).\<close>

definition game_state_decrease_health :: "GameState \<Rightarrow> nat \<Rightarrow> GameState" where
  "game_state_decrease_health gs n =
     gs\<lparr>health := (if n \<le> health gs then health gs - n else 0)\<rparr>"

text \<open>Modelled from the spec: \<open>game_state_decrease_ammo\<close> (\<open>decreaseAmmo(n)\<close>: subtract
  \<open>n\<close>, clamp to 0).\<close>

definition game_state_decrease_ammo :: "GameState \<Rightarrow> nat \<Rightarrow> GameState" where
  "game_state_decrease_ammo gs n =
     gs\<lparr>ammo := (if n \<le> ammo gs then ammo gs - n else 0)\<rparr>"

text \<open>Modelled from the spec: \<open>game_state_increase_ammo\<close> (\<open>increaseAmmo(n)\<close>: add \<open>n\<close>,
  clamp to INITIAL_AMMO).\<close>

definition game_state_increase_ammo :: "nat \<Rightarrow> GameState \<Rightarrow> nat \<Rightarrow> GameState" where
  "game_state_increase_ammo INITIAL_AMMO gs n =
     gs\<lparr>ammo := (if ammo gs + n > INITIAL_AMMO then INITIAL_AMMO else ammo gs + n)\<rparr>"

text \<open>Modelled from the spec: \<open>game_state_get_ammo\<close> (\<open>getAmmo()\<close>).\<close>

definition game_state_get_ammo :: "GameState \<Rightarrow> nat" where
  "game_state_get_ammo gs = ammo gs"

text \<open>Modelled from the spec: \<open>game_state_update_time\<close> (\<open>updateTime(deltaSeconds)\<close>).\<close>

definition game_state_update_time :: "GameState \<Rightarrow> nat \<Rightarrow> GameState" where
  "game_state_update_time gs delta = gs\<lparr>elapsed_time := elapsed_time gs + delta\<rparr>"

text \<open>Modelled from the spec: \<open>game_state_is_game_over\<close> (\<open>isGameOver()\<close>: true iff
  \<open>health == 0\<close>).\<close>

definition game_state_is_game_over :: "GameState \<Rightarrow> bool" where
  "game_state_is_game_over gs = (health gs = 0)"

section \<open>The tag callback\<close>

text \<open>\<open>tag_callback(data, length, context)\<close>. \<open>data\<close> is the buffer, read at indices 0 to 4
  only once \<open>length\<close> has been found to be 5. The locals \<open>max_delta_ammo\<close>, \<open>ammo\<close> and
  \<open>delta_ammo\<close> are \<open>uint16_t\<close>: the subtraction wraps modulo 65536.\<close>

definition tag_callback :: "nat \<Rightarrow> u8 list \<Rightarrow> u8 \<Rightarrow> LaserTagApp \<Rightarrow> LaserTagApp" where
  "tag_callback INITIAL_AMMO data length_arg app =
     (if length_arg \<noteq> 5 then app
      else if data ! 0 \<noteq> 0x13 \<or> data ! 1 \<noteq> 0x37 then app
      else if data ! 3 = 0xFD then
        (let max_delta_ammo = (ucast (data ! 4) :: u16);
             ammo_now = (word_of_nat (game_state_get_ammo (game_state app)) :: u16);
             delta_ammo = (word_of_nat INITIAL_AMMO :: u16) - ammo_now;
             delta_ammo = (if delta_ammo > max_delta_ammo then max_delta_ammo else delta_ammo)
         in app\<lparr>game_state :=
               game_state_increase_ammo INITIAL_AMMO (game_state app) (unat delta_ammo)\<rparr>)
      else app)"

section \<open>Platform and collaborators\<close>

definition log_effect :: "effect \<Rightarrow> LaserTagApp \<Rightarrow> LaserTagApp" where
  "log_effect e app = app\<lparr>effects := effects app @ [e]\<rparr>"

definition notification_message :: "NotificationSequence \<Rightarrow> LaserTagApp \<Rightarrow> LaserTagApp" where
  "notification_message s app = log_effect (Notification s) app"

definition furi_delay_ms :: "nat \<Rightarrow> LaserTagApp \<Rightarrow> LaserTagApp" where
  "furi_delay_ms n app = log_effect (DelayMs n) app"

definition furi_message_queue_alloc :: "nat \<Rightarrow> FuriMessageQueue" where
  "furi_message_queue_alloc n = \<lparr>capacity = n, messages = []\<rparr>"

text \<open>\<open>furi_message_queue_put(queue, msg, timeout)\<close> belongs to the platform, not to this
  repository: where the code calls it, it is a parameter. A put yields its status, the queue
  after the call, and the number of ticks it kept its caller waiting.\<close>

type_synonym queue_put =
  "FuriMessageQueue \<Rightarrow> InputEvent \<Rightarrow> nat \<Rightarrow> FuriStatus \<times> FuriMessageQueue \<times> nat"


text \<open>One such queue, with which the loop is run: the message is appended when there is
  room; a full queue is left as it is, at once with \<open>FuriStatusErrorResource\<close> when the
  timeout is 0, and otherwise after the caller has waited for the whole timeout, with
  \<open>FuriStatusErrorTimeout\<close>.\<close>

definition furi_message_queue_put :: queue_put where
  "furi_message_queue_put q msg timeout =
     (if length (messages q) < capacity q
      then (FuriStatusOk, q\<lparr>messages := messages q @ [msg]\<rparr>, 0)
      else if timeout = 0 then (FuriStatusErrorResource, q, 0)
      else (FuriStatusErrorTimeout, q, timeout))"

text \<open>\<open>furi_message_queue_get(queue, &event, timeout)\<close> of the platform: the oldest message
  is taken out and written to the out-parameter; when none has arrived by the end of the
  wait the out-parameter keeps the value it had (third component). The events that arrive
  during the wait are queued before the call.\<close>

definition furi_message_queue_get ::
  "FuriMessageQueue \<Rightarrow> InputEvent \<Rightarrow> nat \<Rightarrow> FuriStatus \<times> FuriMessageQueue \<times> InputEvent" where
  "furi_message_queue_get q old timeout =
     (case messages q of
        [] \<Rightarrow> (FuriStatusErrorTimeout, q, old)
      | m # ms \<Rightarrow> (FuriStatusOk, q\<lparr>messages := ms\<rparr>, m))"

text \<open>Modelled from the spec: \<open>infrared_controller_send\<close> of the missing
  \<open>infrared_controller.c\<close> (\<open>send()\<close>: transmits the pulse, fire-and-forget).\<close>

definition infrared_controller_send :: "LaserTagApp \<Rightarrow> LaserTagApp" where
  "infrared_controller_send app = log_effect IrSend app"

text \<open>Modelled from the spec: \<open>infrared_controller_receive\<close> of the missing
  \<open>infrared_controller.c\<close> (\<open>receive()\<close>: true once per pending hit, then the pending
  flag is cleared). Called with a non-NULL controller only.\<close>

definition infrared_controller_receive :: "LaserTagApp \<Rightarrow> bool \<times> LaserTagApp" where
  "infrared_controller_receive app =
     (case ir_controller app of
        None \<Rightarrow> (False, log_effect IrReceive app)
      | Some c \<Rightarrow> (hit_received c,
          (log_effect IrReceive app)\<lparr>ir_controller := Some (c\<lparr>hit_received := False\<rparr>)\<rparr>))"

text \<open>Modelled from the spec: \<open>infrared_controller_pause\<close> and
  \<open>infrared_controller_resume\<close> of the missing \<open>infrared_controller.c\<close> (\<open>pause()\<close>
  stops the receive listener, \<open>resume()\<close> restarts it).\<close>

definition infrared_controller_pause :: "LaserTagApp \<Rightarrow> LaserTagApp" where
  "infrared_controller_pause app =
     (log_effect IrPause app)\<lparr>ir_controller :=
        map_option (\<lambda>c. c\<lparr>worker_rx_active := False\<rparr>) (ir_controller app)\<rparr>"

definition infrared_controller_resume :: "LaserTagApp \<Rightarrow> LaserTagApp" where
  "infrared_controller_resume app =
     (log_effect IrResume app)\<lparr>ir_controller :=
        map_option (\<lambda>c. c\<lparr>worker_rx_active := True\<rparr>) (ir_controller app)\<rparr>"

text \<open>Modelled from the spec: \<open>update_infrared_board_status\<close> of the missing
  \<open>infrared_controller.c\<close> (\<open>updateBoardStatus()\<close>: on a switch of the transceiver path
  the pending hit is kept if feasible, otherwise reset to false). \<open>hit_lost\<close> tells that
  a switch happened on which the pending hit could not be kept.\<close>

definition update_infrared_board_status :: "bool \<Rightarrow> LaserTagApp \<Rightarrow> LaserTagApp" where
  "update_infrared_board_status hit_lost app =
     (log_effect (UpdateBoardStatus (ir_controller app \<noteq> None)) app)\<lparr>ir_controller :=
        map_option (\<lambda>c. if hit_lost then c\<lparr>hit_received := False\<rparr> else c) (ir_controller app)\<rparr>"

text \<open>\<open>lfrfid_reader_start\<close> and \<open>lfrfid_reader_stop\<close> of the tag reader: the calls are
  logged; the tags decoded while the reader runs are inputs of the scan window below.\<close>

definition lfrfid_reader_start :: "LaserTagApp \<Rightarrow> LaserTagApp" where
  "lfrfid_reader_start app = log_effect ReaderStart app"

definition lfrfid_reader_stop :: "LaserTagApp \<Rightarrow> LaserTagApp" where
  "lfrfid_reader_stop app = log_effect ReaderStop app"

section \<open>Callbacks\<close>

text \<open>\<open>laser_tag_app_timer_callback\<close>.\<close>

definition laser_tag_app_timer_callback :: "LaserTagApp \<Rightarrow> LaserTagApp" where
  "laser_tag_app_timer_callback app =
     (let app = (if state app = LaserTagStateGame
                 then app\<lparr>game_state := game_state_update_time (game_state app) 1\<rparr>
                 else app)
      in (log_effect ViewUpdate app)\<lparr>need_redraw := True\<rparr>)"

text \<open>\<open>laser_tag_app_input_callback\<close>, over the platform's put: the event is put with
  timeout 0 and the status returned is dropped. The second component is the number of ticks
  the callback kept the input service waiting.\<close>

definition laser_tag_app_input_callback_on ::
  "queue_put \<Rightarrow> InputEvent \<Rightarrow> LaserTagApp \<Rightarrow> LaserTagApp \<times> nat" where
  "laser_tag_app_input_callback_on put input_event app =
     (let r = put (event_queue app) input_event 0
      in (app\<lparr>event_queue := fst (snd r)\<rparr>, snd (snd r)))"

text \<open>The callback on the queue with which the loop is run.\<close>

definition laser_tag_app_input_callback :: "InputEvent \<Rightarrow> LaserTagApp \<Rightarrow> LaserTagApp" where
  "laser_tag_app_input_callback input_event app =
     fst (laser_tag_app_input_callback_on furi_message_queue_put input_event app)"

text \<open>Modelled from the spec: the receive listener of the missing
  \<open>infrared_controller.c\<close> (\<open>hitPending\<close> is set when a pulse with the expected command
  has been decoded; nothing is decoded while the listener is paused).\<close>

definition infrared_worker_hit :: "LaserTagApp \<Rightarrow> LaserTagApp" where
  "infrared_worker_hit app =
     app\<lparr>ir_controller :=
        map_option (\<lambda>c. if worker_rx_active c then c\<lparr>hit_received := True\<rparr> else c)
          (ir_controller app)\<rparr>"

section \<open>Allocation\<close>

text \<open>Modelled from the spec: \<open>game_state_alloc\<close> (a GameState with its initial
  values).\<close>

definition game_state_alloc :: "nat \<Rightarrow> GameState" where
  "game_state_alloc INITIAL_AMMO = \<lparr>health = 100, ammo = INITIAL_AMMO, elapsed_time = 0\<rparr>"

text \<open>\<open>laser_tag_app_alloc\<close>. \<open>resources_ok\<close> tells that \<open>malloc\<close> and the six
  resource allocations returned non-NULL, \<open>timer_ok\<close> that \<open>furi_timer_alloc\<close> did; the
  result is \<open>None\<close> where the source returns NULL. \<open>memset\<close> leaves \<open>ir_controller\<close>
  NULL.\<close>

definition laser_tag_app_alloc :: "nat \<Rightarrow> bool \<Rightarrow> bool \<Rightarrow> LaserTagApp option" where
  "laser_tag_app_alloc INITIAL_AMMO resources_ok timer_ok =
     (if \<not> resources_ok then None
      else if \<not> timer_ok then None
      else Some \<lparr>event_queue = furi_message_queue_alloc 8,
                 ir_controller = None,
                 game_state = game_state_alloc INITIAL_AMMO,
                 state = LaserTagStateSplashScreen,
                 need_redraw = True,
                 effects = []\<rparr>)"

section \<open>Fire, hit and game entry\<close>

text \<open>\<open>laser_tag_app_fire\<close>.\<close>

definition laser_tag_app_fire :: "LaserTagApp \<Rightarrow> LaserTagApp" where
  "laser_tag_app_fire app =
     (case ir_controller app of
        None \<Rightarrow> app
      | Some c \<Rightarrow>
          if processing_signal c then app
          else
            (let app = infrared_controller_send app;
                 app = app\<lparr>game_state := game_state_decrease_ammo (game_state app) 1\<rparr>;
                 app = notification_message sequence_short_beep app;
                 app = notification_message sequence_blink_white_100 app
             in app\<lparr>need_redraw := True\<rparr>))"

text \<open>\<open>laser_tag_app_handle_hit\<close>.\<close>

definition laser_tag_app_handle_hit :: "LaserTagApp \<Rightarrow> LaserTagApp" where
  "laser_tag_app_handle_hit app =
     (let app = app\<lparr>game_state := game_state_decrease_health (game_state app) 10\<rparr>;
          app = notification_message sequence_vibro_1 app
      in if game_state_is_game_over (game_state app)
         then (notification_message sequence_error app)
                \<lparr>state := LaserTagStateGameOver, need_redraw := True\<rparr>
         else app)"

text \<open>\<open>laser_tag_app_enter_game_state\<close>. \<open>alloc_result\<close> is what
  \<open>infrared_controller_alloc\<close> returns (\<open>None\<close> for NULL).\<close>

definition laser_tag_app_enter_game_state ::
  "nat \<Rightarrow> InfraredController option \<Rightarrow> LaserTagApp \<Rightarrow> bool \<times> LaserTagApp" where
  "laser_tag_app_enter_game_state INITIAL_AMMO alloc_result app =
     (let app = app\<lparr>state := LaserTagStateGame\<rparr>;
          app = app\<lparr>game_state := game_state_reset INITIAL_AMMO (game_state app)\<rparr>;
          app = log_effect ViewUpdate app;
          app = (if ir_controller app \<noteq> None
                 then (log_effect IrFree app)\<lparr>ir_controller := None\<rparr>
                 else app);
          app = (log_effect IrAlloc app)\<lparr>ir_controller := alloc_result\<rparr>
      in if ir_controller app = None then (False, app)
         else (True, app\<lparr>need_redraw := True\<rparr>))"

section \<open>The scan window of the Up key\<close>

text \<open>A decoded tag as the reader hands it to the callback: buffer and length.\<close>

type_synonym tag = "u8 list \<times> u8"

text \<open>The reader runs the callback once for every tag it decodes, in order.\<close>

definition deliver_tags :: "nat \<Rightarrow> tag list \<Rightarrow> LaserTagApp \<Rightarrow> LaserTagApp" where
  "deliver_tags INITIAL_AMMO ts app = fold (\<lambda>t. tag_callback INITIAL_AMMO (fst t) (snd t)) ts app"

text \<open>The \<open>for\<close> loop of the Up case, from loop counter \<open>i\<close>: \<open>tags\<close> lists, for each
  coming 100 ms delay, the tags the reader decodes during it (none once the list is
  used up). \<open>ammo0\<close> is the \<open>uint16_t\<close> local \<open>ammo\<close>.\<close>

function scan_wait :: "nat \<Rightarrow> nat \<Rightarrow> u16 \<Rightarrow> tag list list \<Rightarrow> LaserTagApp \<Rightarrow> LaserTagApp" where
  "scan_wait INITIAL_AMMO i ammo0 tags app =
     (if i < 30 then
        (let app = furi_delay_ms 100 app;
             app = deliver_tags INITIAL_AMMO (case tags of [] \<Rightarrow> [] | t # _ \<Rightarrow> t) app
         in if unat ammo0 \<noteq> game_state_get_ammo (game_state app) then app
            else scan_wait INITIAL_AMMO (i + 1) ammo0 (tl tags) app)
      else app)"
  by pat_completeness auto
termination
  by (relation "measure (\<lambda>(ia, i, a, ts, app). 30 - i)") auto

declare scan_wait.simps [simp del]

text \<open>The Up case of the main loop's \<open>switch\<close>. \<open>late\<close> are the tags decoded between the
  last look at the ammo and \<open>lfrfid_reader_stop\<close>.\<close>

definition laser_tag_app_scan_for_ammo ::
  "nat \<Rightarrow> tag list list \<Rightarrow> tag list \<Rightarrow> LaserTagApp \<Rightarrow> LaserTagApp" where
  "laser_tag_app_scan_for_ammo INITIAL_AMMO tags late app =
     (let app = notification_message sequence_short_beep app;
          ammo0 = (word_of_nat (game_state_get_ammo (game_state app)) :: u16);
          app = infrared_controller_pause app;
          app = lfrfid_reader_start app;
          app = scan_wait INITIAL_AMMO 0 ammo0 tags app;
          app = deliver_tags INITIAL_AMMO late app;
          app = lfrfid_reader_stop app;
          app = infrared_controller_resume app;
          app = (if unat ammo0 \<noteq> game_state_get_ammo (game_state app)
                 then notification_message sequence_success app
                 else notification_message sequence_error app)
      in app\<lparr>need_redraw := True\<rparr>)"

section \<open>The main loop\<close>

text \<open>What the surroundings contribute to one iteration of the loop: the outcome of the
  board check, the result of \<open>infrared_controller_alloc\<close> should the game be entered, and
  the tags decoded should a scan window be opened.\<close>

record LoopEnv =
  hit_lost_on_switch :: bool
  ir_alloc_result :: "InfraredController option"
  scan_tags :: "tag list list"
  late_tags :: "tag list"

text \<open>The locals of \<open>laser_tag_app\<close> that live across iterations, with the application.
  \<open>event\<close> is not initialised before the loop.\<close>

record MainLoop =
  the_app :: LaserTagApp
  event :: InputEvent
  running :: bool

text \<open>The body of \<open>if(event.type == InputTypePress || event.type == InputTypeRepeat)\<close>
  with its test: the dispatch of a received event on the state and the key. The result
  pairs the application with the new value of \<open>running\<close>.\<close>

definition laser_tag_app_dispatch ::
  "nat \<Rightarrow> LoopEnv \<Rightarrow> InputEvent \<Rightarrow> bool \<Rightarrow> LaserTagApp \<Rightarrow> LaserTagApp \<times> bool" where
  "laser_tag_app_dispatch INITIAL_AMMO env ev run app =
     (if type ev = InputTypePress \<or> type ev = InputTypeRepeat then
        (if state app = LaserTagStateSplashScreen then
           (case key ev of
              InputKeyOk \<Rightarrow>
                (let r = laser_tag_app_enter_game_state INITIAL_AMMO (ir_alloc_result env) app
                 in (snd r, if \<not> fst r then False else run))
            | InputKeyBack \<Rightarrow> (app, False)
            | _ \<Rightarrow> (app, run))
         else if state app = LaserTagStateGameOver then
           (if key ev = InputKeyOk
            then (app\<lparr>game_state := game_state_reset INITIAL_AMMO (game_state app),
                      state := LaserTagStateSplashScreen, need_redraw := True\<rparr>, run)
            else (app, run))
         else if state app = LaserTagStateGame then
           (if key ev = InputKeyDown \<and> game_state_get_ammo (game_state app) = 0
            then (app\<lparr>game_state :=
                        game_state_increase_ammo INITIAL_AMMO (game_state app) INITIAL_AMMO,
                      need_redraw := True\<rparr>, run)
            else
              (case key ev of
                 InputKeyBack \<Rightarrow> (app, False)
               | InputKeyOk \<Rightarrow> (laser_tag_app_fire app, run)
               | InputKeyUp \<Rightarrow>
                   (laser_tag_app_scan_for_ammo INITIAL_AMMO (scan_tags env) (late_tags env) app,
                    run)
               | _ \<Rightarrow> (app, run)))
         else (app, run))
      else (app, run))"

text \<open>The second part of the loop body, after the event has been dealt with: the poll for
  a hit with the game-over check, and the restart test of the game-over screen. \<open>ev\<close> is
  the local \<open>event\<close> as it stands at that point.\<close>

definition laser_tag_app_poll :: "nat \<Rightarrow> InputEvent \<Rightarrow> LaserTagApp \<Rightarrow> LaserTagApp" where
  "laser_tag_app_poll INITIAL_AMMO ev app =
     (if state app = LaserTagStateGame \<and> ir_controller app \<noteq> None then
        (let r = infrared_controller_receive app;
             app = (if fst r then laser_tag_app_handle_hit (snd r) else snd r)
         in if game_state_is_game_over (game_state app)
            then (notification_message sequence_error app)
                   \<lparr>state := LaserTagStateGameOver, need_redraw := True\<rparr>
            else app)
      else if state app = LaserTagStateGameOver then
        (if key ev = InputKeyOk
         then app\<lparr>game_state := game_state_reset INITIAL_AMMO (game_state app),
                  state := LaserTagStateSplashScreen, need_redraw := True\<rparr>
         else app)
      else app)"

text \<open>The end of the loop body: the redraw on the dirty flag and the 10 ms delay.\<close>

definition laser_tag_app_redraw :: "LaserTagApp \<Rightarrow> LaserTagApp" where
  "laser_tag_app_redraw app =
     (let app = (if need_redraw app
                 then (log_effect ViewPortUpdate app)\<lparr>need_redraw := False\<rparr>
                 else app)
      in furi_delay_ms 10 app)"

text \<open>One iteration of \<open>while(running)\<close> in \<open>laser_tag_app\<close>.\<close>

definition laser_tag_app_iteration :: "nat \<Rightarrow> LoopEnv \<Rightarrow> MainLoop \<Rightarrow> MainLoop" where
  "laser_tag_app_iteration INITIAL_AMMO env ml =
     (let app = update_infrared_board_status (hit_lost_on_switch env) (the_app ml);
          g = furi_message_queue_get (event_queue app) (event ml) 100;
          status = fst g;
          app = app\<lparr>event_queue := fst (snd g)\<rparr>;
          ev = snd (snd g);
          d = (if status = FuriStatusOk
               then laser_tag_app_dispatch INITIAL_AMMO env ev (running ml) app
               else (app, running ml));
          app = laser_tag_app_poll INITIAL_AMMO ev (fst d);
          app = laser_tag_app_redraw app
      in \<lparr>the_app = app, event = ev, running = snd d\<rparr>)"

text \<open>What happens between two iterations: the timer may fire, an infrared pulse may be
  decoded, and the input service hands over the events of \<open>inputs\<close> through the input
  callback.\<close>

record Arrivals =
  timer_fired :: bool
  ir_hit :: bool
  inputs :: "InputEvent list"

definition arrive :: "Arrivals \<Rightarrow> LaserTagApp \<Rightarrow> LaserTagApp" where
  "arrive a app =
     (let app = (if timer_fired a then laser_tag_app_timer_callback app else app);
          app = (if ir_hit a then infrared_worker_hit app else app)
      in fold laser_tag_app_input_callback (inputs a) app)"

text \<open>The loop \<open>while(running)\<close>, run for as many iterations as the list describes, or
  until \<open>running\<close> is false.\<close>

fun laser_tag_app_loop :: "nat \<Rightarrow> (Arrivals \<times> LoopEnv) list \<Rightarrow> MainLoop \<Rightarrow> MainLoop" where
  "laser_tag_app_loop INITIAL_AMMO [] ml = ml"
| "laser_tag_app_loop INITIAL_AMMO (x # xs) ml =
     (if running ml
      then laser_tag_app_loop INITIAL_AMMO xs
             (laser_tag_app_iteration INITIAL_AMMO (snd x)
                (ml\<lparr>the_app := arrive (fst x) (the_app ml)\<rparr>))
      else ml)"

section \<open>The scan window in the spec's words\<close>

text \<open>The ammo after the tags of the first \<open>j\<close> intervals of a scan window have been
  handed to the callback.\<close>

definition ammo_after_intervals :: "nat \<Rightarrow> tag list list \<Rightarrow> nat \<Rightarrow> LaserTagApp \<Rightarrow> nat" where
  "ammo_after_intervals INITIAL_AMMO tags j app =
     ammo (game_state (fold (deliver_tags INITIAL_AMMO) (take j tags) app))"

text \<open>The number of intervals a window waits that is entered with \<open>i\<close> intervals already
  spent: up to the first one after which the ammo differs from \<open>a0\<close>, and no more than
  the 30 of the budget.\<close>

definition scan_intervals_from ::
  "nat \<Rightarrow> nat \<Rightarrow> nat \<Rightarrow> tag list list \<Rightarrow> LaserTagApp \<Rightarrow> nat" where
  "scan_intervals_from INITIAL_AMMO i a0 tags app =
     (case find (\<lambda>j. ammo_after_intervals INITIAL_AMMO tags j app \<noteq> a0) [1..<31 - i] of
        Some j \<Rightarrow> j
      | None \<Rightarrow> 30 - i)"

text \<open>The spec's scan window: at most 30 intervals, ended by the first one after which the
  ammo differs from its value at window start.\<close>

definition scan_intervals :: "nat \<Rightarrow> tag list list \<Rightarrow> LaserTagApp \<Rightarrow> nat" where
  "scan_intervals INITIAL_AMMO tags app =
     scan_intervals_from INITIAL_AMMO 0 (ammo (game_state app)) tags app"

section \<open>Sample states\<close>

text \<open>A game in progress, 12 seconds in, three shots fired, with 100 for
  \<open>INITIAL_AMMO\<close>.\<close>

definition sample_controller :: InfraredController where
  "sample_controller = \<lparr>worker_rx_active = True, hit_received = False, processing_signal = False\<rparr>"

definition sample_app :: LaserTagApp where
  "sample_app = \<lparr>event_queue = furi_message_queue_alloc 8,
                  ir_controller = Some sample_controller,
                  game_state = \<lparr>health = 100, ammo = 97, elapsed_time = 12\<rparr>,
                  state = LaserTagStateGame,
                  need_redraw = False,
                  effects = []\<rparr>"

text \<open>The refill tag of the README, \<open>13 37 00 FD 0A\<close>.\<close>

definition refill_tag :: "u8 list" where
  "refill_tag = [0x13, 0x37, 0x00, 0xFD, 0x0A]"

text \<open>The same game one hit from its end, with a hit pending.\<close>

definition last_hit_app :: LaserTagApp where
  "last_hit_app = sample_app\<lparr>ir_controller := Some (sample_controller\<lparr>hit_received := True\<rparr>),
      game_state := \<lparr>health = 10, ammo = 97, elapsed_time = 12\<rparr>\<rparr>"

text \<open>The game-over screen, no event queued.\<close>

definition game_over_app :: LaserTagApp where
  "game_over_app = sample_app\<lparr>game_state := \<lparr>health = 0, ammo = 96, elapsed_time = 12\<rparr>,
      state := LaserTagStateGameOver\<rparr>"

text \<open>The application right after \<open>laser_tag_app_alloc\<close>: splash screen, no controller.\<close>

definition fresh_app :: LaserTagApp where
  "fresh_app = \<lparr>event_queue = furi_message_queue_alloc 8,
                 ir_controller = None,
                 game_state = game_state_alloc 100,
                 state = LaserTagStateSplashScreen,
                 need_redraw = True,
                 effects = []\<rparr>"

definition ok_press :: InputEvent where
  "ok_press = \<lparr>type = InputTypePress, key = InputKeyOk\<rparr>"

definition up_press :: InputEvent where
  "up_press = \<lparr>type = InputTypePress, key = InputKeyUp\<rparr>"

definition down_press :: InputEvent where
  "down_press = \<lparr>type = InputTypePress, key = InputKeyDown\<rparr>"

definition back_release :: InputEvent where
  "back_release = \<lparr>type = InputTypeRelease, key = InputKeyBack\<rparr>"

text \<open>An iteration during which nothing happens around the loop, and one whose scan window
  sees the refill tag in its third interval.\<close>

definition quiet_env :: LoopEnv where
  "quiet_env = \<lparr>hit_lost_on_switch = False, ir_alloc_result = Some sample_controller,
      scan_tags = [], late_tags = []\<rparr>"

definition late_refill_env :: LoopEnv where
  "late_refill_env = \<lparr>hit_lost_on_switch = False, ir_alloc_result = None,
      scan_tags = [[], [], [(refill_tag, 5)]], late_tags = []\<rparr>"

definition no_arrivals :: Arrivals where
  "no_arrivals = \<lparr>timer_fired = False, ir_hit = False, inputs = []\<rparr>"

text \<open>A whole session: the OK press that starts the game, ten hits, and one more iteration
  during which nothing happens.\<close>

definition start_press :: "Arrivals \<times> LoopEnv" where
  "start_press = (\<lparr>timer_fired = False, ir_hit = False, inputs = [ok_press]\<rparr>, quiet_env)"

definition one_hit :: "Arrivals \<times> LoopEnv" where
  "one_hit = (\<lparr>timer_fired = False, ir_hit = True, inputs = []\<rparr>, quiet_env)"

definition idle :: "Arrivals \<times> LoopEnv" where
  "idle = (no_arrivals, quiet_env)"

definition first_run :: MainLoop where
  "first_run = \<lparr>the_app = fresh_app, event = back_release, running = True\<rparr>"

section \<open>An invariant of the loop\<close>

text \<open>Ammo and health within their ranges, a queue of capacity 8 holding at most 8 events,
  and a controller whenever the loop goes on in the game state.\<close>

definition loop_invariant :: "nat \<Rightarrow> MainLoop \<Rightarrow> bool" where
  "loop_invariant INITIAL_AMMO ml =
     (ammo (game_state (the_app ml)) \<le> INITIAL_AMMO
      \<and> health (game_state (the_app ml)) \<le> 100
      \<and> (if running ml \<and> state (the_app ml) = LaserTagStateGame
         then ir_controller (the_app ml) \<noteq> None else True)
      \<and> capacity (event_queue (the_app ml)) = 8
      \<and> length (messages (event_queue (the_app ml))) \<le> 8)"

section \<open>The tag callback: refill and rejection\<close>

lemma u16_headroom:
  assumes "a \<le> ia" "ia < 65536"
  shows "unat ((word_of_nat ia :: u16) - word_of_nat a) = ia - a"
proof -
  have "unat (word_of_nat (ia - a) :: u16) = ia - a"
    using assms by (simp only: unat_of_nat) simp
  moreover have "(word_of_nat (ia - a) :: u16) = word_of_nat ia - word_of_nat a"
    using assms(1) by (rule of_nat_diff)
  ultimately show ?thesis by (simp only:)
qed

lemma u16_of_byte: "unat (ucast (b :: u8) :: u16) = unat b"
  by (simp add: unsigned_ucast_eq take_bit_nat_eq_self
      order_less_trans [OF unsigned_less [where ?'b = 8]])

lemma tag_callback_delta:
  assumes "length_arg = 5" "data ! 0 = 0x13" "data ! 1 = 0x37" "data ! 3 = 0xFD"
    and "ammo (game_state app) \<le> ia" "ia < 65536"
  shows "tag_callback ia data length_arg app =
     app\<lparr>game_state := game_state_increase_ammo ia (game_state app)
        (min (unat (data ! 4)) (ia - ammo (game_state app)))\<rparr>"
proof -
  let ?a = "ammo (game_state app)"
  let ?d = "(word_of_nat ia :: u16) - word_of_nat ?a"
  let ?m = "ucast (data ! 4) :: u16"
  have d: "unat ?d = ia - ?a" using assms(5,6) by (rule u16_headroom)
  have m: "unat ?m = unat (data ! 4)" by (rule u16_of_byte)
  have "unat (if ?d > ?m then ?m else ?d) = min (unat (data ! 4)) (ia - ?a)"
    by (simp add: word_less_nat_alt d m min_def)
  then show ?thesis
    using assms(1-4) by (simp add: tag_callback_def Let_def game_state_get_ammo_def)
qed

text \<open>C1. A tag of exactly 5 bytes that begins with 0x13 0x37 and has action code 0xFD
  at index 3 raises the ammo by the smaller of the amount byte at index 4 and the headroom
  \<open>INITIAL_AMMO - ammo\<close>, and changes nothing else. The ammo is within its range
  \<open>0..INITIAL_AMMO\<close> before the call, and \<open>INITIAL_AMMO\<close> fits the \<open>uint16_t\<close> locals
  of the callback.\<close>

theorem tag_callback_refill:
  assumes "length data = 5" and "length_arg = 5"
    and "data ! 0 = 0x13" and "data ! 1 = 0x37" and "data ! 3 = 0xFD"
    and "ammo (game_state app) \<le> INITIAL_AMMO" and "INITIAL_AMMO < 65536"
  shows "tag_callback INITIAL_AMMO data length_arg app =
     app\<lparr>game_state := (game_state app)
        \<lparr>ammo := ammo (game_state app) +
           min (unat (data ! 4)) (INITIAL_AMMO - ammo (game_state app))\<rparr>\<rparr>"
proof -
  let ?n = "min (unat (data ! 4)) (INITIAL_AMMO - ammo (game_state app))"
  have "\<not> ammo (game_state app) + ?n > INITIAL_AMMO"
    using assms(6) by simp
  then have "game_state_increase_ammo INITIAL_AMMO (game_state app) ?n =
      (game_state app)\<lparr>ammo := ammo (game_state app) + ?n\<rparr>"
    by (simp only: game_state_increase_ammo_def if_False)
  then show ?thesis
    using tag_callback_delta [OF assms(2-7)] by (simp only:)
qed

text \<open>The spec's two examples, with 100 for \<open>INITIAL_AMMO\<close>: from 97 the refill tag
  gives 100 (3 added, not 10), and from 100 it changes nothing.\<close>

theorem tag_callback_refill_witness:
  "length refill_tag = 5 \<and> refill_tag ! 0 = 0x13 \<and> refill_tag ! 1 = 0x37
   \<and> refill_tag ! 3 = 0xFD \<and> ammo (game_state sample_app) = 97
   \<and> tag_callback 100 refill_tag 5 sample_app =
       sample_app\<lparr>game_state := \<lparr>health = 100, ammo = 100, elapsed_time = 12\<rparr>\<rparr>
   \<and> tag_callback 100 refill_tag 5
         (sample_app\<lparr>game_state := \<lparr>health = 100, ammo = 100, elapsed_time = 12\<rparr>\<rparr>) =
       sample_app\<lparr>game_state := \<lparr>health = 100, ammo = 100, elapsed_time = 12\<rparr>\<rparr>"
  using tag_callback_refill [where data = refill_tag and length_arg = 5 and app = sample_app
      and INITIAL_AMMO = 100]
    tag_callback_refill [where data = refill_tag and length_arg = 5
      and app = "sample_app\<lparr>game_state := \<lparr>health = 100, ammo = 100, elapsed_time = 12\<rparr>\<rparr>"
      and INITIAL_AMMO = 100]
  by (simp add: refill_tag_def sample_app_def)

text \<open>C2. A tag whose length is not 5, or whose first two bytes are not 0x13 0x37, or
  whose action code at index 3 is not 0xFD, leaves the whole application state as it was:
  ammo, health, elapsed time and everything else.\<close>

theorem tag_callback_reject:
  assumes "length_arg \<noteq> 5 \<or> data ! 0 \<noteq> 0x13 \<or> data ! 1 \<noteq> 0x37 \<or> data ! 3 \<noteq> 0xFD"
  shows "tag_callback INITIAL_AMMO data length_arg app = app"
  using assms by (auto simp: tag_callback_def)

theorem tag_callback_reject_witness:
  "tag_callback 100 [0x13, 0x37, 0x00, 0xFD] 4 sample_app = sample_app
   \<and> tag_callback 100 [0x13, 0x38, 0x00, 0xFD, 0x0A] 5 sample_app = sample_app
   \<and> tag_callback 100 [0x13, 0x37, 0x00, 0xFE, 0x0A] 5 sample_app = sample_app"
  using tag_callback_reject [where length_arg = 4 and data = "[0x13, 0x37, 0x00, 0xFD]"
      and app = sample_app and INITIAL_AMMO = 100]
    tag_callback_reject [where length_arg = 5 and data = "[0x13, 0x38, 0x00, 0xFD, 0x0A]"
      and app = sample_app and INITIAL_AMMO = 100]
    tag_callback_reject [where length_arg = 5 and data = "[0x13, 0x37, 0x00, 0xFE, 0x0A]"
      and app = sample_app and INITIAL_AMMO = 100]
  by simp

section \<open>The hit poll and the end of the game\<close>

lemmas effect_defs = log_effect_def notification_message_def furi_delay_ms_def
  infrared_controller_send_def infrared_controller_receive_def infrared_controller_pause_def
  infrared_controller_resume_def lfrfid_reader_start_def lfrfid_reader_stop_def

text \<open>C3. In the game state, with a controller, when \<open>infrared_controller_receive\<close>
  reports a hit at the poll of the iteration, the health goes down by exactly 10, stopping
  at 0; the state after the poll is game over exactly when that health is 0, and is the
  game state otherwise; and \<open>game_state_is_game_over\<close> holds exactly when the health
  is 0.\<close>

theorem hit_poll_health:
  assumes "state app = LaserTagStateGame" and "ir_controller app = Some c"
    and "fst (infrared_controller_receive app)"
  shows "health (game_state (laser_tag_app_poll INITIAL_AMMO ev app)) =
           (if 10 \<le> health (game_state app) then health (game_state app) - 10 else 0)
         \<and> (state (laser_tag_app_poll INITIAL_AMMO ev app) = LaserTagStateGameOver) =
             (health (game_state (laser_tag_app_poll INITIAL_AMMO ev app)) = 0)
         \<and> (state (laser_tag_app_poll INITIAL_AMMO ev app) = LaserTagStateGameOver
              \<or> state (laser_tag_app_poll INITIAL_AMMO ev app) = LaserTagStateGame)
         \<and> game_state_is_game_over (game_state (laser_tag_app_poll INITIAL_AMMO ev app)) =
             (health (game_state (laser_tag_app_poll INITIAL_AMMO ev app)) = 0)"
  using assms
  by (simp add: laser_tag_app_poll_def laser_tag_app_handle_hit_def Let_def effect_defs
      game_state_decrease_health_def game_state_is_game_over_def)

theorem hit_poll_health_witness:
  "state last_hit_app = LaserTagStateGame \<and> fst (infrared_controller_receive last_hit_app)
   \<and> health (game_state last_hit_app) = 10
   \<and> health (game_state (laser_tag_app_poll 100 ok_press last_hit_app)) = 0
   \<and> state (laser_tag_app_poll 100 ok_press last_hit_app) = LaserTagStateGameOver
   \<and> health (game_state (laser_tag_app_poll 100 ok_press
         (last_hit_app\<lparr>game_state := \<lparr>health = 100, ammo = 97, elapsed_time = 12\<rparr>\<rparr>))) = 90
   \<and> state (laser_tag_app_poll 100 ok_press
         (last_hit_app\<lparr>game_state := \<lparr>health = 100, ammo = 97, elapsed_time = 12\<rparr>\<rparr>)) =
       LaserTagStateGame"
  using hit_poll_health [where app = last_hit_app and ev = ok_press and INITIAL_AMMO = 100
       and c = "sample_controller\<lparr>hit_received := True\<rparr>"]
    hit_poll_health [where ev = ok_press and INITIAL_AMMO = 100
       and app = "last_hit_app\<lparr>game_state := \<lparr>health = 100, ammo = 97, elapsed_time = 12\<rparr>\<rparr>"
       and c = "sample_controller\<lparr>hit_received := True\<rparr>"]
  by (auto simp: last_hit_app_def sample_app_def sample_controller_def effect_defs)

text \<open>The two places that end the game, each taken alone, request the failure effect once:
  the hit handler on the hit that takes the health to 0, and the check of the loop when it
  finds the health at 0 without a hit.\<close>

lemma handle_hit_error_once:
  assumes "health (game_state app) \<le> 10"
  shows "effects (laser_tag_app_handle_hit app) =
           effects app @ [Notification sequence_vibro_1, Notification sequence_error]
         \<and> state (laser_tag_app_handle_hit app) = LaserTagStateGameOver"
  using assms
  by (simp add: laser_tag_app_handle_hit_def Let_def effect_defs
      game_state_decrease_health_def game_state_is_game_over_def)

lemma loop_check_error_once:
  assumes "state app = LaserTagStateGame" and "ir_controller app = Some c"
    and "\<not> fst (infrared_controller_receive app)"
    and "health (game_state app) = 0"
  shows "effects (laser_tag_app_poll INITIAL_AMMO ev app) =
           effects app @ [IrReceive, Notification sequence_error]
         \<and> state (laser_tag_app_poll INITIAL_AMMO ev app) = LaserTagStateGameOver"
  using assms
  by (simp add: laser_tag_app_poll_def Let_def effect_defs game_state_is_game_over_def)

text \<open>Together they request it twice: on every hit that takes the health to 0 the hit
  handler has already ended the game when the check of the loop, which looks at the health
  and not at the state, ends it once more.\<close>

lemma fatal_hit_error_twice:
  assumes "state app = LaserTagStateGame" and "ir_controller app = Some c"
    and "fst (infrared_controller_receive app)"
    and "health (game_state app) \<le> 10"
  shows "effects (laser_tag_app_poll INITIAL_AMMO ev app) =
           effects app @ [IrReceive, Notification sequence_vibro_1,
              Notification sequence_error, Notification sequence_error]
         \<and> state (laser_tag_app_poll INITIAL_AMMO ev app) = LaserTagStateGameOver"
  using assms
  by (simp add: laser_tag_app_poll_def laser_tag_app_handle_hit_def Let_def effect_defs
      game_state_decrease_health_def game_state_is_game_over_def)

text \<open>C4 at its failing input. The game with health 10 and a hit pending: the poll takes
  the state from game to game over and requests \<open>sequence_error\<close> twice, not once; so
  does the whole iteration in which no event is received, whose calls are listed.\<close>

theorem game_over_error_twice:
  "count_list (effects (laser_tag_app_poll 100 ok_press last_hit_app))
      (Notification sequence_error) = 2
   \<and> effects last_hit_app = []
   \<and> state last_hit_app = LaserTagStateGame
   \<and> state (laser_tag_app_poll 100 ok_press last_hit_app) = LaserTagStateGameOver
   \<and> effects (the_app (laser_tag_app_iteration 100 quiet_env
        \<lparr>the_app = last_hit_app, event = back_release, running = True\<rparr>)) =
      [UpdateBoardStatus True, IrReceive, Notification sequence_vibro_1,
       Notification sequence_error, Notification sequence_error, ViewPortUpdate, DelayMs 10]"
  by (simp add: laser_tag_app_iteration_def laser_tag_app_redraw_def
      update_infrared_board_status_def furi_message_queue_get_def furi_message_queue_alloc_def
      laser_tag_app_poll_def laser_tag_app_handle_hit_def Let_def effect_defs
      game_state_decrease_health_def game_state_is_game_over_def
      last_hit_app_def sample_app_def sample_controller_def quiet_env_def back_release_def)

section \<open>The game-over screen\<close>

text \<open>On the game-over screen, an iteration that receives no event still restarts the game
  when the last event received, whatever its type, had the OK key: the restart test after
  the poll reads the local \<open>event\<close> without looking at the status of the queue.\<close>

lemma stale_ok_restarts:
  assumes "state (the_app ml) = LaserTagStateGameOver"
    and "messages (event_queue (the_app ml)) = []"
    and "key (event ml) = InputKeyOk"
  shows "state (the_app (laser_tag_app_iteration INITIAL_AMMO env ml)) =
           LaserTagStateSplashScreen
         \<and> game_state (the_app (laser_tag_app_iteration INITIAL_AMMO env ml)) =
           game_state_reset INITIAL_AMMO (game_state (the_app ml))"
  using assms
  by (simp add: laser_tag_app_iteration_def Let_def update_infrared_board_status_def
      furi_message_queue_get_def laser_tag_app_poll_def laser_tag_app_redraw_def effect_defs)

text \<open>C5 at its failing input. The game-over screen with an empty queue, the local
  \<open>event\<close> still holding the OK press of the last shot: one iteration without any input
  resets the game and shows the splash screen. Below it, the two iterations that lead
  there from the game: the OK press fires, the pending hit ends the game, and the next
  iteration, with nothing queued, already leaves the game-over screen.\<close>

theorem game_over_left_without_input:
  "state game_over_app = LaserTagStateGameOver
   \<and> messages (event_queue game_over_app) = []
   \<and> the_app (laser_tag_app_iteration 100 quiet_env
        \<lparr>the_app = game_over_app, event = ok_press, running = True\<rparr>) =
      game_over_app\<lparr>game_state := \<lparr>health = 100, ammo = 100, elapsed_time = 0\<rparr>,
        state := LaserTagStateSplashScreen,
        effects := [UpdateBoardStatus True, ViewPortUpdate, DelayMs 10]\<rparr>
   \<and> state (the_app (laser_tag_app_loop 100 [(no_arrivals, quiet_env)]
        \<lparr>the_app = laser_tag_app_input_callback ok_press last_hit_app,
          event = back_release, running = True\<rparr>)) = LaserTagStateGameOver
   \<and> state (the_app (laser_tag_app_loop 100 [(no_arrivals, quiet_env), (no_arrivals, quiet_env)]
        \<lparr>the_app = laser_tag_app_input_callback ok_press last_hit_app,
          event = back_release, running = True\<rparr>)) = LaserTagStateSplashScreen"
  by (simp add: laser_tag_app_iteration_def Let_def update_infrared_board_status_def
      furi_message_queue_get_def furi_message_queue_put_def laser_tag_app_input_callback_def
      laser_tag_app_input_callback_on_def
      laser_tag_app_poll_def laser_tag_app_redraw_def laser_tag_app_dispatch_def
      laser_tag_app_fire_def laser_tag_app_handle_hit_def effect_defs arrive_def
      game_over_app_def last_hit_app_def sample_app_def sample_controller_def quiet_env_def
      no_arrivals_def ok_press_def back_release_def
      furi_message_queue_alloc_def game_state_reset_def game_state_decrease_ammo_def
      game_state_decrease_health_def game_state_is_game_over_def)

section \<open>Fire and reload\<close>

text \<open>C6. An OK press or repeat in the game state, with a controller: while a hit is being
  processed (\<open>processing_signal\<close>) nothing at all changes; otherwise the pulse is sent,
  the ammo goes down by 1, staying at 0 when it is 0, and the beep and the blink are
  requested.\<close>

theorem fire_on_ok:
  assumes "type ev = InputTypePress \<or> type ev = InputTypeRepeat" and "key ev = InputKeyOk"
    and "state app = LaserTagStateGame" and "ir_controller app = Some c"
  shows "laser_tag_app_dispatch INITIAL_AMMO env ev run app =
     (if processing_signal c then (app, run)
      else (app\<lparr>game_state := (game_state app)
                  \<lparr>ammo := (if 1 \<le> ammo (game_state app) then ammo (game_state app) - 1 else 0)\<rparr>,
                need_redraw := True,
                effects := effects app @ [IrSend, Notification sequence_short_beep,
                   Notification sequence_blink_white_100]\<rparr>, run))"
  using assms
  by (simp add: laser_tag_app_dispatch_def laser_tag_app_fire_def Let_def effect_defs
      game_state_decrease_ammo_def)

theorem fire_on_ok_witness:
  "laser_tag_app_dispatch 100 quiet_env ok_press True sample_app =
     (sample_app\<lparr>game_state := \<lparr>health = 100, ammo = 96, elapsed_time = 12\<rparr>,
        need_redraw := True,
        effects := [IrSend, Notification sequence_short_beep,
           Notification sequence_blink_white_100]\<rparr>, True)
   \<and> laser_tag_app_dispatch 100 quiet_env ok_press True
       (sample_app\<lparr>game_state := \<lparr>health = 100, ammo = 0, elapsed_time = 12\<rparr>\<rparr>) =
     (sample_app\<lparr>game_state := \<lparr>health = 100, ammo = 0, elapsed_time = 12\<rparr>,
        need_redraw := True,
        effects := [IrSend, Notification sequence_short_beep,
           Notification sequence_blink_white_100]\<rparr>, True)
   \<and> laser_tag_app_dispatch 100 quiet_env ok_press True
       (sample_app\<lparr>ir_controller := Some (sample_controller\<lparr>processing_signal := True\<rparr>)\<rparr>) =
     (sample_app\<lparr>ir_controller := Some (sample_controller\<lparr>processing_signal := True\<rparr>)\<rparr>,
      True)"
  using fire_on_ok [where ev = ok_press and app = sample_app and c = sample_controller
      and INITIAL_AMMO = 100 and env = quiet_env and run = True]
    fire_on_ok [where ev = ok_press and c = sample_controller
      and app = "sample_app\<lparr>game_state := \<lparr>health = 100, ammo = 0, elapsed_time = 12\<rparr>\<rparr>"
      and INITIAL_AMMO = 100 and env = quiet_env and run = True]
    fire_on_ok [where ev = ok_press and c = "sample_controller\<lparr>processing_signal := True\<rparr>"
      and app = "sample_app\<lparr>ir_controller :=
         Some (sample_controller\<lparr>processing_signal := True\<rparr>)\<rparr>"
      and INITIAL_AMMO = 100 and env = quiet_env and run = True]
  by (simp add: ok_press_def sample_app_def sample_controller_def)

text \<open>C7. A Down press or repeat in the game state: with no ammo left the ammo becomes
  exactly \<open>INITIAL_AMMO\<close> (and the screen is marked for redraw); with ammo left nothing
  changes.\<close>

theorem reload_on_down:
  assumes "type ev = InputTypePress \<or> type ev = InputTypeRepeat" and "key ev = InputKeyDown"
    and "state app = LaserTagStateGame"
  shows "laser_tag_app_dispatch INITIAL_AMMO env ev run app =
     (if ammo (game_state app) = 0
      then (app\<lparr>game_state := (game_state app)\<lparr>ammo := INITIAL_AMMO\<rparr>,
                need_redraw := True\<rparr>, run)
      else (app, run))"
  using assms
  by (simp add: laser_tag_app_dispatch_def Let_def game_state_get_ammo_def
      game_state_increase_ammo_def)

theorem reload_on_down_witness:
  "laser_tag_app_dispatch 100 quiet_env down_press True
       (sample_app\<lparr>game_state := \<lparr>health = 100, ammo = 0, elapsed_time = 12\<rparr>\<rparr>) =
     (sample_app\<lparr>game_state := \<lparr>health = 100, ammo = 100, elapsed_time = 12\<rparr>,
        need_redraw := True\<rparr>, True)
   \<and> laser_tag_app_dispatch 100 quiet_env down_press True sample_app = (sample_app, True)"
  using reload_on_down [where ev = down_press and INITIAL_AMMO = 100 and env = quiet_env
      and run = True
      and app = "sample_app\<lparr>game_state := \<lparr>health = 100, ammo = 0, elapsed_time = 12\<rparr>\<rparr>"]
    reload_on_down [where ev = down_press and INITIAL_AMMO = 100 and env = quiet_env
      and run = True and app = sample_app]
  by (simp add: down_press_def sample_app_def)

section \<open>The scan window\<close>

text \<open>The callback and the delivery of tags touch the game state only, and what they do
  to it depends on the game state only.\<close>


lemma tag_callback_frame:
  "tag_callback ia d l app = app\<lparr>game_state := game_state (tag_callback ia d l app)\<rparr>"
  by (simp add: tag_callback_def Let_def)

lemma tag_callback_game_state:
  "game_state a = game_state b \<Longrightarrow>
   game_state (tag_callback ia d l a) = game_state (tag_callback ia d l b)"
  by (simp add: tag_callback_def Let_def)

lemma tag_callback_effects: "effects (tag_callback ia d l app) = effects app"
  by (simp add: tag_callback_def Let_def)

lemma deliver_tags_Nil: "deliver_tags ia [] app = app"
  by (simp add: deliver_tags_def)

lemma deliver_tags_Cons:
  "deliver_tags ia (t # ts) app = deliver_tags ia ts (tag_callback ia (fst t) (snd t) app)"
  by (simp add: deliver_tags_def)

lemma deliver_tags_frame:
  "deliver_tags ia ts app = app\<lparr>game_state := game_state (deliver_tags ia ts app)\<rparr>"
proof (induction ts arbitrary: app)
  case Nil
  show ?case by (simp add: deliver_tags_Nil)
next
  case (Cons t ts)
  let ?b = "tag_callback ia (fst t) (snd t) app"
  have "deliver_tags ia ts ?b = ?b\<lparr>game_state := game_state (deliver_tags ia ts ?b)\<rparr>"
    by (rule Cons.IH)
  also have "\<dots> = app\<lparr>game_state := game_state (deliver_tags ia ts ?b)\<rparr>"
    by (subst tag_callback_frame) simp
  finally show ?case by (simp add: deliver_tags_Cons)
qed

lemma deliver_tags_game_state:
  "game_state a = game_state b \<Longrightarrow>
   game_state (deliver_tags ia ts a) = game_state (deliver_tags ia ts b)"
proof (induction ts arbitrary: a b)
  case Nil
  then show ?case by (simp add: deliver_tags_Nil)
next
  case (Cons t ts)
  show ?case
    unfolding deliver_tags_Cons
    by (rule Cons.IH) (rule tag_callback_game_state [OF Cons.prems])
qed

lemma deliver_tags_effects: "effects (deliver_tags ia ts app) = effects app"
  by (subst deliver_tags_frame) simp

lemma fold_deliver_game_state:
  "game_state a = game_state b \<Longrightarrow>
   game_state (fold (deliver_tags ia) tss a) = game_state (fold (deliver_tags ia) tss b)"
proof (induction tss arbitrary: a b)
  case Nil
  then show ?case by simp
next
  case (Cons ts tss)
  show ?case
    unfolding fold_simps
    by (rule Cons.IH) (rule deliver_tags_game_state [OF Cons.prems])
qed

lemma find_map_fun: "find P (map f xs) = map_option f (find (\<lambda>x. P (f x)) xs)"
  by (induction xs) simp_all

lemma game_state_after_first_interval:
  "game_state (fold (deliver_tags ia) (take (Suc j) tags) app) =
   game_state (fold (deliver_tags ia) (take j (tl tags))
     (deliver_tags ia (case tags of [] \<Rightarrow> [] | t # _ \<Rightarrow> t) (furi_delay_ms 100 app)))"
proof -
  let ?h = "case tags of [] \<Rightarrow> [] | t # _ \<Rightarrow> t"
  have first: "fold (deliver_tags ia) (take (Suc j) tags) app =
        fold (deliver_tags ia) (take j (tl tags)) (deliver_tags ia ?h app)"
    by (cases tags) (simp_all add: deliver_tags_Nil)
  have delayed: "game_state (deliver_tags ia ?h app) =
                 game_state (deliver_tags ia ?h (furi_delay_ms 100 app))"
    by (rule deliver_tags_game_state) (simp add: furi_delay_ms_def log_effect_def)
  show ?thesis
    unfolding first by (rule fold_deliver_game_state [OF delayed])
qed

lemma ammo_after_Suc:
  "ammo_after_intervals ia tags (Suc j) app =
   ammo_after_intervals ia (tl tags) j
     (deliver_tags ia (case tags of [] \<Rightarrow> [] | t # _ \<Rightarrow> t) (furi_delay_ms 100 app))"
  unfolding ammo_after_intervals_def by (simp only: game_state_after_first_interval)

lemma scan_intervals_from_step:
  assumes "i < 30"
  shows "scan_intervals_from ia i a0 tags app =
     (let app1 = deliver_tags ia (case tags of [] \<Rightarrow> [] | t # _ \<Rightarrow> t) (furi_delay_ms 100 app)
      in if ammo (game_state app1) \<noteq> a0 then 1
         else Suc (scan_intervals_from ia (i + 1) a0 (tl tags) app1))"
proof -
  let ?app1 = "deliver_tags ia (case tags of [] \<Rightarrow> [] | t # _ \<Rightarrow> t) (furi_delay_ms 100 app)"
  let ?P = "\<lambda>j. ammo_after_intervals ia tags j app \<noteq> a0"
  let ?Q = "\<lambda>j. ammo_after_intervals ia (tl tags) j ?app1 \<noteq> a0"
  let ?js = "[1..<31 - (i + 1)]"
  have e: "31 - i = Suc (30 - i)"
    using assms by simp
  have "[1..<Suc (30 - i)] = 1 # [Suc 1..<Suc (30 - i)]"
    using assms by (intro upt_conv_Cons) simp
  also have "[Suc 1..<Suc (30 - i)] = map Suc [1..<30 - i]"
    by (rule map_Suc_upt [symmetric])
  finally have upt: "[1..<31 - i] = 1 # map Suc ?js"
    by (simp only: e) simp
  have one: "?P 1 = (ammo (game_state ?app1) \<noteq> a0)"
    using ammo_after_Suc [of ia tags 0 app] by (simp add: ammo_after_intervals_def)
  have more: "(\<lambda>j. ?P (Suc j)) = ?Q"
    by (simp only: ammo_after_Suc)
  have "find ?P (1 # map Suc ?js) = (if ?P 1 then Some 1 else find ?P (map Suc ?js))"
    by (rule find.simps)
  also have "find ?P (map Suc ?js) = map_option Suc (find (\<lambda>j. ?P (Suc j)) ?js)"
    by (rule find_map_fun)
  finally have f: "find ?P [1..<31 - i] =
      (if ammo (game_state ?app1) \<noteq> a0 then Some 1 else map_option Suc (find ?Q ?js))"
    by (simp only: upt one more)
  have rest: "30 - i = Suc (30 - (i + 1))"
    using assms by simp
  have k: "scan_intervals_from ia (i + 1) a0 (tl tags) ?app1 =
      (case find ?Q ?js of Some j \<Rightarrow> j | None \<Rightarrow> 30 - (i + 1))"
    by (simp only: scan_intervals_from_def)
  have "scan_intervals_from ia i a0 tags app =
      (case find ?P [1..<31 - i] of Some j \<Rightarrow> j | None \<Rightarrow> 30 - i)"
    by (simp only: scan_intervals_from_def)
  also have "\<dots> = (if ammo (game_state ?app1) \<noteq> a0 then 1
      else Suc (case find ?Q ?js of Some j \<Rightarrow> j | None \<Rightarrow> 30 - (i + 1)))"
    unfolding f using rest by (cases "find ?Q ?js") simp_all
  finally show ?thesis
    by (simp only: k Let_def)
qed

lemma scan_wait_result:
  "scan_wait ia i a0 tags app =
     app\<lparr>game_state := game_state (fold (deliver_tags ia)
                (take (scan_intervals_from ia i (unat a0) tags app) tags) app),
         effects := effects app @
                replicate (scan_intervals_from ia i (unat a0) tags app) (DelayMs 100)\<rparr>"
proof (induction ia i a0 tags app rule: scan_wait.induct)
  case (1 ia i a0 tags app)
  let ?app1 = "deliver_tags ia (case tags of [] \<Rightarrow> [] | t # _ \<Rightarrow> t) (furi_delay_ms 100 app)"
  show ?case
  proof (cases "i < 30")
    case False
    then have "scan_intervals_from ia i (unat a0) tags app = 0"
      by (simp add: scan_intervals_from_def)
    with False show ?thesis by (subst scan_wait.simps) simp
  next
    case True
    have app1: "?app1 = app\<lparr>game_state := game_state ?app1,
                            effects := effects app @ [DelayMs 100]\<rparr>"
      by (subst deliver_tags_frame) (simp add: furi_delay_ms_def log_effect_def)
    have first: "game_state (fold (deliver_tags ia) (take (Suc j) tags) app) =
                 game_state (fold (deliver_tags ia) (take j (tl tags)) ?app1)" for j
      by (rule game_state_after_first_interval)
    show ?thesis
    proof (cases "unat a0 \<noteq> game_state_get_ammo (game_state ?app1)")
      case changed: True
      then have k: "scan_intervals_from ia i (unat a0) tags app = 1"
        using True by (simp add: scan_intervals_from_step game_state_get_ammo_def Let_def)
      have "scan_wait ia i a0 tags app = ?app1"
        using True changed by (subst scan_wait.simps) (simp add: Let_def)
      also have "\<dots> = app\<lparr>game_state := game_state ?app1,
                            effects := effects app @ [DelayMs 100]\<rparr>"
        by (rule app1)
      finally show ?thesis
        using first [of 0] by (simp add: k)
    next
      case same: False
      let ?k = "scan_intervals_from ia (i + 1) (unat a0) (tl tags) ?app1"
      have k: "scan_intervals_from ia i (unat a0) tags app = Suc ?k"
        using True same by (simp add: scan_intervals_from_step game_state_get_ammo_def Let_def)
      have "scan_wait ia i a0 tags app = scan_wait ia (i + 1) a0 (tl tags) ?app1"
        using True same by (subst scan_wait.simps) (simp add: Let_def)
      also have "\<dots> = ?app1\<lparr>game_state := game_state (fold (deliver_tags ia)
                                (take ?k (tl tags)) ?app1),
                            effects := effects ?app1 @ replicate ?k (DelayMs 100)\<rparr>"
        using True same by (intro "1.IH") simp_all
      also have "\<dots> = app\<lparr>game_state := game_state (fold (deliver_tags ia)
                                (take (Suc ?k) tags) app),
                            effects := effects app @ replicate (Suc ?k) (DelayMs 100)\<rparr>"
        by (subst (1 3) app1) (simp add: first)
      finally show ?thesis
        by (simp only: k)
    qed
  qed
qed

lemma scan_intervals_from_bounds:
  "scan_intervals_from ia i a0 tags app \<le> 30 - i"
  "i < 30 \<Longrightarrow> 1 \<le> scan_intervals_from ia i a0 tags app"
  by (auto simp: scan_intervals_from_def find_Some_iff split: option.splits)

lemma scan_intervals_from_game_state:
  assumes "game_state a = game_state b"
  shows "scan_intervals_from ia i a0 tags a = scan_intervals_from ia i a0 tags b"
proof -
  have "ammo_after_intervals ia tags j a = ammo_after_intervals ia tags j b" for j
    unfolding ammo_after_intervals_def
    using fold_deliver_game_state [OF assms] by simp
  then show ?thesis
    by (simp only: scan_intervals_from_def)
qed

lemma u16_ammo: "a < 65536 \<Longrightarrow> unat (word_of_nat a :: u16) = a"
  by (simp add: unat_of_nat)

lemma scan_for_ammo_effects:
  assumes "ammo (game_state app) < 65536"
  shows "effects (laser_tag_app_scan_for_ammo ia tags late app) =
       effects app @ [Notification sequence_short_beep, IrPause, ReaderStart]
         @ replicate (scan_intervals ia tags app) (DelayMs 100)
         @ [ReaderStop, IrResume,
            Notification (if ammo (game_state (laser_tag_app_scan_for_ammo ia tags late app))
                               \<noteq> ammo (game_state app)
                          then sequence_success else sequence_error)]"
proof -
  let ?a0 = "word_of_nat (ammo (game_state app)) :: u16"
  let ?app1 = "lfrfid_reader_start (infrared_controller_pause
                 (notification_message sequence_short_beep app))"
  have a0: "unat ?a0 = ammo (game_state app)"
    using assms by (rule u16_ammo)
  have gs1: "game_state ?app1 = game_state app"
    by (simp add: effect_defs)
  have k: "scan_intervals_from ia 0 (ammo (game_state app)) tags ?app1 = scan_intervals ia tags app"
    unfolding scan_intervals_def by (rule scan_intervals_from_game_state [OF gs1])
  have e1: "effects ?app1 = effects app @ [Notification sequence_short_beep, IrPause, ReaderStart]"
    by (simp add: effect_defs)
  have w: "effects (scan_wait ia 0 ?a0 tags ?app1) =
      effects ?app1 @ replicate (scan_intervals ia tags app) (DelayMs 100)"
    by (subst scan_wait_result) (simp add: a0 k)
  show ?thesis
    unfolding laser_tag_app_scan_for_ammo_def Let_def game_state_get_ammo_def
    using w e1
    by (simp add: a0 deliver_tags_effects effect_defs)
qed

lemma scan_for_ammo_need_redraw: "need_redraw (laser_tag_app_scan_for_ammo ia tags late app)"
  by (simp add: laser_tag_app_scan_for_ammo_def Let_def)

text \<open>C8. An Up press or repeat in the game state, with a controller: the handler requests
  the beep, pauses the infrared reception, starts the tag reader, waits
  \<open>scan_intervals\<close> times 100 ms (at least one interval, at most 30, ending with the first
  interval after which the ammo differs from its value at the start), stops the tag reader,
  resumes the infrared reception, and requests the success effect if the ammo now differs
  from its value at the start and the failure effect if not. Nothing follows the stop and
  the resume but that effect. The ammo at the start fits the \<open>uint16_t\<close> local that holds
  it.\<close>

theorem scan_on_up:
  assumes "type ev = InputTypePress \<or> type ev = InputTypeRepeat" and "key ev = InputKeyUp"
    and "state app = LaserTagStateGame" and "ir_controller app = Some c"
    and "ammo (game_state app) < 65536"
  shows "effects (fst (laser_tag_app_dispatch INITIAL_AMMO env ev run app)) =
       effects app @ [Notification sequence_short_beep, IrPause, ReaderStart]
         @ replicate (scan_intervals INITIAL_AMMO (scan_tags env) app) (DelayMs 100)
         @ [ReaderStop, IrResume,
            Notification
              (if ammo (game_state (fst (laser_tag_app_dispatch INITIAL_AMMO env ev run app)))
                    \<noteq> ammo (game_state app)
               then sequence_success else sequence_error)]
     \<and> 1 \<le> scan_intervals INITIAL_AMMO (scan_tags env) app
     \<and> scan_intervals INITIAL_AMMO (scan_tags env) app \<le> 30
     \<and> snd (laser_tag_app_dispatch INITIAL_AMMO env ev run app) = run"
proof -
  have d: "laser_tag_app_dispatch INITIAL_AMMO env ev run app =
      (laser_tag_app_scan_for_ammo INITIAL_AMMO (scan_tags env) (late_tags env) app, run)"
    using assms(1-3) by (simp add: laser_tag_app_dispatch_def)
  have "1 \<le> scan_intervals INITIAL_AMMO (scan_tags env) app"
    unfolding scan_intervals_def by (rule scan_intervals_from_bounds) simp
  moreover have "scan_intervals INITIAL_AMMO (scan_tags env) app \<le> 30"
    unfolding scan_intervals_def using scan_intervals_from_bounds(1) [of _ 0] by simp
  ultimately show ?thesis
    unfolding d using scan_for_ammo_effects [OF assms(5)] by simp
qed

theorem scan_on_up_witness:
  "effects (fst (laser_tag_app_dispatch 100 late_refill_env up_press True sample_app)) =
     [Notification sequence_short_beep, IrPause, ReaderStart] @ replicate 3 (DelayMs 100) @
     [ReaderStop, IrResume, Notification sequence_success]
   \<and> ammo (game_state (fst (laser_tag_app_dispatch 100 late_refill_env up_press True sample_app))) = 100
   \<and> effects (fst (laser_tag_app_dispatch 100 quiet_env up_press True sample_app)) =
     [Notification sequence_short_beep, IrPause, ReaderStart] @ replicate 30 (DelayMs 100) @
     [ReaderStop, IrResume, Notification sequence_error]"
proof -
  have k: "scan_intervals 100 (scan_tags late_refill_env) sample_app = 3"
    by (simp add: scan_intervals_def scan_intervals_from_def late_refill_env_def
        ammo_after_intervals_def upt_rec deliver_tags_def refill_tag_def sample_app_def
        tag_callback_def Let_def game_state_get_ammo_def game_state_increase_ammo_def)
  have k': "scan_intervals 100 (scan_tags quiet_env) sample_app = 30"
    by (simp add: scan_intervals_def scan_intervals_from_def quiet_env_def
        ammo_after_intervals_def upt_rec sample_app_def)
  have a: "ammo (game_state (fst (laser_tag_app_dispatch 100 late_refill_env up_press True
      sample_app))) = 100"
    by (simp add: laser_tag_app_dispatch_def laser_tag_app_scan_for_ammo_def Let_def
        scan_wait.simps up_press_def late_refill_env_def sample_app_def effect_defs
        deliver_tags_def refill_tag_def tag_callback_def game_state_get_ammo_def
        game_state_increase_ammo_def)
  have a': "ammo (game_state (fst (laser_tag_app_dispatch 100 quiet_env up_press True
      sample_app))) = 97"
    by (simp add: laser_tag_app_dispatch_def laser_tag_app_scan_for_ammo_def Let_def
        scan_wait.simps up_press_def quiet_env_def sample_app_def effect_defs
        deliver_tags_def game_state_get_ammo_def)
  have s: "type up_press = InputTypePress" "key up_press = InputKeyUp"
    "state sample_app = LaserTagStateGame" "ir_controller sample_app = Some sample_controller"
    "ammo (game_state sample_app) = 97" "effects sample_app = []"
    by (simp_all add: up_press_def sample_app_def)
  show ?thesis
    using scan_on_up [where ev = up_press and app = sample_app and c = sample_controller
        and INITIAL_AMMO = 100 and env = late_refill_env and run = True]
      scan_on_up [where ev = up_press and app = sample_app and c = sample_controller
        and INITIAL_AMMO = 100 and env = quiet_env and run = True]
    by (simp add: s k k' a a')
qed


section \<open>The input queue\<close>




text \<open>The timeout matters: on a full queue a put with timeout 100 keeps its caller waiting
  on the queue with which the loop is run, and the put of the callback does not.\<close>

lemma put_on_full_queue_waits:
  "snd (snd (furi_message_queue_put \<lparr>capacity = 8, messages = replicate 8 ok_press\<rparr>
      up_press 100)) = 100
   \<and> snd (snd (furi_message_queue_put \<lparr>capacity = 8, messages = replicate 8 ok_press\<rparr>
      up_press 0)) = 0"
  by (simp add: furi_message_queue_put_def)

section \<open>The NULL controller\<close>

text \<open>Every step of the loop only adds to the log of calls.\<close>

lemma fire_prefix: "prefix (effects app) (effects (laser_tag_app_fire app))"
  by (simp add: laser_tag_app_fire_def Let_def effect_defs split: option.splits)

lemma handle_hit_prefix: "prefix (effects app) (effects (laser_tag_app_handle_hit app))"
  by (simp add: laser_tag_app_handle_hit_def Let_def effect_defs)

lemma enter_game_state_prefix:
  "prefix (effects app) (effects (snd (laser_tag_app_enter_game_state ia r app)))"
  by (simp add: laser_tag_app_enter_game_state_def Let_def effect_defs)

lemma scan_wait_prefix: "prefix (effects app) (effects (scan_wait ia i a0 tags app))"
  by (subst scan_wait_result) simp

lemma scan_for_ammo_prefix:
  "prefix (effects app) (effects (laser_tag_app_scan_for_ammo ia tags late app))"
proof -
  let ?a0 = "word_of_nat (game_state_get_ammo (game_state app)) :: u16"
  let ?app1 = "lfrfid_reader_start (infrared_controller_pause
                 (notification_message sequence_short_beep app))"
  have "prefix (effects app) (effects ?app1)"
    by (simp add: effect_defs)
  also have "prefix (effects ?app1) (effects (scan_wait ia 0 ?a0 tags ?app1))"
    by (rule scan_wait_prefix)
  also have "prefix (effects (scan_wait ia 0 ?a0 tags ?app1))
      (effects (laser_tag_app_scan_for_ammo ia tags late app))"
    by (simp add: laser_tag_app_scan_for_ammo_def Let_def deliver_tags_effects
        notification_message_def infrared_controller_resume_def lfrfid_reader_stop_def
        log_effect_def)
  finally show ?thesis .
qed

lemma dispatch_prefix:
  "prefix (effects app) (effects (fst (laser_tag_app_dispatch ia env ev run app)))"
  unfolding laser_tag_app_dispatch_def
  by (cases "key ev")
    (simp_all add: fire_prefix enter_game_state_prefix scan_for_ammo_prefix Let_def)

lemma poll_prefix: "prefix (effects app) (effects (laser_tag_app_poll ia ev app))"
proof -
  have "prefix (effects app) (effects (laser_tag_app_handle_hit (snd (infrared_controller_receive app))))"
    by (rule prefix_order.trans [OF _ handle_hit_prefix]) (simp add: effect_defs split: option.splits)
  moreover have "prefix (effects app) (effects (snd (infrared_controller_receive app)))"
    by (simp add: effect_defs split: option.splits)
  ultimately show ?thesis
    by (auto simp add: laser_tag_app_poll_def Let_def notification_message_def log_effect_def
        intro: prefix_order.trans)
qed

lemma redraw_prefix: "prefix (effects app) (effects (laser_tag_app_redraw app))"
  by (simp add: laser_tag_app_redraw_def Let_def effect_defs)

lemma iteration_begins_with_board_status:
  "prefix (effects (the_app ml) @ [UpdateBoardStatus (ir_controller (the_app ml) \<noteq> None)])
     (effects (the_app (laser_tag_app_iteration ia env ml)))"
proof -
  define a where "a = update_infrared_board_status (hit_lost_on_switch env) (the_app ml)"
  define g where "g = furi_message_queue_get (event_queue a) (event ml) 100"
  define b where "b = a\<lparr>event_queue := fst (snd g)\<rparr>"
  define d where "d = (if fst g = FuriStatusOk
            then laser_tag_app_dispatch ia env (snd (snd g)) (running ml) b
            else (b, running ml))"
  have eb: "effects b = effects (the_app ml) @ [UpdateBoardStatus (ir_controller (the_app ml) \<noteq> None)]"
    by (simp add: b_def a_def update_infrared_board_status_def log_effect_def)
  have pd: "prefix (effects b) (effects (fst d))"
  proof (cases "fst g = FuriStatusOk")
    case True
    then have "fst d = fst (laser_tag_app_dispatch ia env (snd (snd g)) (running ml) b)"
      by (simp add: d_def)
    then show ?thesis
      by (simp only: dispatch_prefix)
  next
    case False
    then have "fst d = b"
      by (simp add: d_def)
    then show ?thesis
      by simp
  qed
  have it: "the_app (laser_tag_app_iteration ia env ml) =
      laser_tag_app_redraw (laser_tag_app_poll ia (snd (snd g)) (fst d))"
    unfolding laser_tag_app_iteration_def Let_def a_def [symmetric] g_def [symmetric]
      b_def [symmetric] d_def [symmetric]
    by simp
  have "prefix (effects b) (effects (laser_tag_app_poll ia (snd (snd g)) (fst d)))"
    using pd poll_prefix by (rule prefix_order.trans)
  then have "prefix (effects b)
      (effects (laser_tag_app_redraw (laser_tag_app_poll ia (snd (snd g)) (fst d))))"
    using redraw_prefix by (rule prefix_order.trans)
  then show ?thesis
    by (simp only: it eb)
qed

text \<open>C10. With the controller pointer NULL: \<open>laser_tag_app_fire\<close> changes nothing; the
  poll makes no call and handles no hit, so that all it can still do is the restart test of
  the game-over screen; and the first call of every iteration is
  \<open>update_infrared_board_status\<close> with the NULL pointer.\<close>

theorem null_controller_guards:
  assumes "ir_controller app = None"
  shows "laser_tag_app_fire app = app
     \<and> laser_tag_app_poll INITIAL_AMMO ev app =
         (if state app = LaserTagStateGameOver \<and> key ev = InputKeyOk
          then app\<lparr>game_state := game_state_reset INITIAL_AMMO (game_state app),
                   state := LaserTagStateSplashScreen, need_redraw := True\<rparr>
          else app)
     \<and> prefix (effects app @ [UpdateBoardStatus False])
         (effects (the_app (laser_tag_app_iteration INITIAL_AMMO env
            \<lparr>the_app = app, event = ev0, running = run\<rparr>)))"
  using assms iteration_begins_with_board_status
    [of "\<lparr>the_app = app, event = ev0, running = run\<rparr>" INITIAL_AMMO env]
  by (simp add: laser_tag_app_fire_def laser_tag_app_poll_def)

theorem null_controller_guards_witness:
  "ir_controller fresh_app = None
   \<and> laser_tag_app_fire fresh_app = fresh_app
   \<and> laser_tag_app_poll 100 ok_press fresh_app = fresh_app
   \<and> prefix [UpdateBoardStatus False]
        (effects (the_app (laser_tag_app_iteration 100 quiet_env
           \<lparr>the_app = fresh_app, event = back_release, running = True\<rparr>)))"
  using null_controller_guards [where app = fresh_app and INITIAL_AMMO = 100 and ev = ok_press
      and env = quiet_env and ev0 = back_release and run = True]
  by (simp add: fresh_app_def)

section \<open>Reachable states\<close>

text \<open>The callback keeps the ammo within its range and leaves health and time alone; within
  the range it never lowers the ammo.\<close>

lemma tag_callback_bounds:
  assumes "ammo (game_state app) \<le> ia"
  shows "ammo (game_state (tag_callback ia d l app)) \<le> ia"
    and "health (game_state (tag_callback ia d l app)) = health (game_state app)"
    and "elapsed_time (game_state (tag_callback ia d l app)) = elapsed_time (game_state app)"
  using assms by (simp_all add: tag_callback_def Let_def game_state_increase_ammo_def)

lemma tag_callback_ammo_mono:
  assumes "ammo (game_state app) \<le> ia" and "ia < 65536"
  shows "ammo (game_state app) \<le> ammo (game_state (tag_callback ia d l app))"
proof (cases "l = 5 \<and> d ! 0 = 0x13 \<and> d ! 1 = 0x37 \<and> d ! 3 = 0xFD")
  case True
  then show ?thesis
    using tag_callback_delta [of l d app ia] assms
    by (simp add: game_state_increase_ammo_def)
next
  case False
  then have "tag_callback ia d l app = app"
    by (auto simp: tag_callback_def)
  then show ?thesis by simp
qed

lemma deliver_tags_bounds:
  assumes "ammo (game_state app) \<le> ia"
  shows "ammo (game_state (deliver_tags ia ts app)) \<le> ia
       \<and> health (game_state (deliver_tags ia ts app)) = health (game_state app)
       \<and> elapsed_time (game_state (deliver_tags ia ts app)) = elapsed_time (game_state app)"
  using assms
proof (induction ts arbitrary: app)
  case Nil
  then show ?case by (simp add: deliver_tags_Nil)
next
  case (Cons t ts)
  show ?case
    unfolding deliver_tags_Cons
    using Cons.IH [OF tag_callback_bounds(1) [OF Cons.prems]] tag_callback_bounds(2,3) [OF Cons.prems]
    by simp
qed

lemma deliver_tags_ammo_mono:
  assumes "ammo (game_state app) \<le> ia" and "ia < 65536"
  shows "ammo (game_state app) \<le> ammo (game_state (deliver_tags ia ts app))"
  using assms(1)
proof (induction ts arbitrary: app)
  case Nil
  then show ?case by (simp add: deliver_tags_Nil)
next
  case (Cons t ts)
  have "ammo (game_state app) \<le> ammo (game_state (tag_callback ia (fst t) (snd t) app))"
    using Cons.prems assms(2) by (rule tag_callback_ammo_mono)
  also have "\<dots> \<le> ammo (game_state (deliver_tags ia ts (tag_callback ia (fst t) (snd t) app)))"
    by (rule Cons.IH) (rule tag_callback_bounds(1) [OF Cons.prems])
  finally show ?case by (simp add: deliver_tags_Cons)
qed

lemma fold_deliver_bounds:
  assumes "ammo (game_state app) \<le> ia"
  shows "ammo (game_state (fold (deliver_tags ia) tss app)) \<le> ia
       \<and> health (game_state (fold (deliver_tags ia) tss app)) = health (game_state app)
       \<and> elapsed_time (game_state (fold (deliver_tags ia) tss app)) = elapsed_time (game_state app)"
  using assms
proof (induction tss arbitrary: app)
  case Nil
  then show ?case by simp
next
  case (Cons ts tss)
  have b: "ammo (game_state (deliver_tags ia ts app)) \<le> ia"
    using deliver_tags_bounds [OF Cons.prems] by simp
  show ?case
    using Cons.IH [OF b] deliver_tags_bounds [OF Cons.prems, of ts] by simp
qed

lemma fold_deliver_ammo_mono:
  assumes "ammo (game_state app) \<le> ia" and "ia < 65536"
  shows "ammo (game_state app) \<le> ammo (game_state (fold (deliver_tags ia) tss app))"
  using assms(1)
proof (induction tss arbitrary: app)
  case Nil
  then show ?case by simp
next
  case (Cons ts tss)
  have b: "ammo (game_state (deliver_tags ia ts app)) \<le> ia"
    using deliver_tags_bounds [OF Cons.prems] by simp
  have "ammo (game_state app) \<le> ammo (game_state (deliver_tags ia ts app))"
    using Cons.prems assms(2) by (rule deliver_tags_ammo_mono)
  also have "\<dots> \<le> ammo (game_state (fold (deliver_tags ia) tss (deliver_tags ia ts app)))"
    by (rule Cons.IH [OF b])
  finally show ?case by simp
qed

text \<open>What the scan window leaves alone.\<close>

lemma scan_wait_fields:
  "event_queue (scan_wait ia i a0 tags app) = event_queue app"
  "state (scan_wait ia i a0 tags app) = state app"
  "ir_controller (scan_wait ia i a0 tags app) = ir_controller app"
  by (subst scan_wait_result, simp)+

lemma deliver_tags_fields:
  "event_queue (deliver_tags ia ts app) = event_queue app"
  "state (deliver_tags ia ts app) = state app"
  "ir_controller (deliver_tags ia ts app) = ir_controller app"
  by (subst deliver_tags_frame, simp)+

lemma scan_for_ammo_fields:
  "event_queue (laser_tag_app_scan_for_ammo ia tags late app) = event_queue app"
  "state (laser_tag_app_scan_for_ammo ia tags late app) = state app"
  "(ir_controller (laser_tag_app_scan_for_ammo ia tags late app) = None) =
     (ir_controller app = None)"
  by (simp_all add: laser_tag_app_scan_for_ammo_def Let_def scan_wait_fields
      deliver_tags_fields effect_defs)

lemma scan_for_ammo_game_state:
  assumes "ammo (game_state app) < 65536"
  shows "game_state (laser_tag_app_scan_for_ammo ia tags late app) =
     game_state (deliver_tags ia late
        (fold (deliver_tags ia) (take (scan_intervals ia tags app) tags) app))"
proof -
  let ?a0 = "word_of_nat (ammo (game_state app)) :: u16"
  let ?app1 = "lfrfid_reader_start (infrared_controller_pause
                 (notification_message sequence_short_beep app))"
  have a0: "unat ?a0 = ammo (game_state app)"
    using assms by (rule u16_ammo)
  have gs1: "game_state ?app1 = game_state app"
    by (simp add: effect_defs)
  have k: "scan_intervals_from ia 0 (ammo (game_state app)) tags ?app1 = scan_intervals ia tags app"
    unfolding scan_intervals_def by (rule scan_intervals_from_game_state [OF gs1])
  have w: "game_state (scan_wait ia 0 ?a0 tags ?app1) =
      game_state (fold (deliver_tags ia) (take (scan_intervals ia tags app) tags) app)"
    by (subst scan_wait_result) (simp add: a0 k fold_deliver_game_state [OF gs1])
  have "game_state (laser_tag_app_scan_for_ammo ia tags late app) =
      game_state (deliver_tags ia late (scan_wait ia 0 ?a0 tags ?app1))"
    by (simp add: laser_tag_app_scan_for_ammo_def Let_def game_state_get_ammo_def effect_defs)
  also have "\<dots> = game_state (deliver_tags ia late
        (fold (deliver_tags ia) (take (scan_intervals ia tags app) tags) app))"
    by (rule deliver_tags_game_state [OF w])
  finally show ?thesis .
qed

lemma scan_for_ammo_as_delivery:
  "\<exists>k. game_state (laser_tag_app_scan_for_ammo ia tags late app) =
     game_state (deliver_tags ia late (fold (deliver_tags ia) (take k tags) app))"
proof -
  let ?a0 = "word_of_nat (game_state_get_ammo (game_state app)) :: u16"
  let ?app1 = "lfrfid_reader_start (infrared_controller_pause
                 (notification_message sequence_short_beep app))"
  let ?k = "scan_intervals_from ia 0 (unat ?a0) tags ?app1"
  have gs1: "game_state ?app1 = game_state app"
    by (simp add: effect_defs)
  have w: "game_state (scan_wait ia 0 ?a0 tags ?app1) =
      game_state (fold (deliver_tags ia) (take ?k tags) app)"
    by (subst scan_wait_result) (simp add: fold_deliver_game_state [OF gs1])
  have "game_state (laser_tag_app_scan_for_ammo ia tags late app) =
      game_state (deliver_tags ia late (scan_wait ia 0 ?a0 tags ?app1))"
    by (simp add: laser_tag_app_scan_for_ammo_def Let_def effect_defs)
  also have "\<dots> = game_state (deliver_tags ia late
        (fold (deliver_tags ia) (take ?k tags) app))"
    by (rule deliver_tags_game_state [OF w])
  finally show ?thesis by blast
qed

lemma scan_for_ammo_bounds:
  assumes "ammo (game_state app) \<le> ia"
  shows "ammo (game_state (laser_tag_app_scan_for_ammo ia tags late app)) \<le> ia
       \<and> health (game_state (laser_tag_app_scan_for_ammo ia tags late app)) =
           health (game_state app)
       \<and> elapsed_time (game_state (laser_tag_app_scan_for_ammo ia tags late app)) =
           elapsed_time (game_state app)"
proof -
  obtain k where k: "game_state (laser_tag_app_scan_for_ammo ia tags late app) =
      game_state (deliver_tags ia late (fold (deliver_tags ia) (take k tags) app))"
    using scan_for_ammo_as_delivery by blast
  have f: "ammo (game_state (fold (deliver_tags ia) (take k tags) app)) \<le> ia"
    using fold_deliver_bounds [OF assms] by simp
  show ?thesis
    unfolding k
    using deliver_tags_bounds [OF f, of late] fold_deliver_bounds [OF assms, of "take k tags"]
    by simp
qed

text \<open>Within its range the ammo never goes down during a scan window: it has changed at
  some point of the window exactly when it differs at the end.\<close>

lemma scan_for_ammo_ammo_mono:
  assumes "ammo (game_state app) \<le> ia" and "ia < 65536"
  shows "ammo (game_state app) \<le> ammo (game_state (laser_tag_app_scan_for_ammo ia tags late app))"
proof -
  obtain k where k: "game_state (laser_tag_app_scan_for_ammo ia tags late app) =
      game_state (deliver_tags ia late (fold (deliver_tags ia) (take k tags) app))"
    using scan_for_ammo_as_delivery by blast
  have f: "ammo (game_state (fold (deliver_tags ia) (take k tags) app)) \<le> ia"
    using fold_deliver_bounds [OF assms(1)] by simp
  have "ammo (game_state app) \<le> ammo (game_state (fold (deliver_tags ia) (take k tags) app))"
    using assms by (rule fold_deliver_ammo_mono)
  also have "\<dots> \<le> ammo (game_state (deliver_tags ia late
      (fold (deliver_tags ia) (take k tags) app)))"
    using f assms(2) by (rule deliver_tags_ammo_mono)
  finally show ?thesis by (simp only: k)
qed

text \<open>Each part of the loop body keeps the invariant.\<close>

lemma dispatch_invariant:
  assumes "loop_invariant ia \<lparr>the_app = app, event = e, running = run\<rparr>"
  shows "loop_invariant ia \<lparr>the_app = fst (laser_tag_app_dispatch ia env ev run app),
           event = e', running = snd (laser_tag_app_dispatch ia env ev run app)\<rparr>"
proof -
  have scan: "loop_invariant ia
      \<lparr>the_app = laser_tag_app_scan_for_ammo ia tags late app, event = e', running = run\<rparr>"
    for tags late
    using assms scan_for_ammo_bounds [of app ia tags late]
    by (auto simp: loop_invariant_def scan_for_ammo_fields)
  have fire: "loop_invariant ia \<lparr>the_app = laser_tag_app_fire app, event = e', running = run\<rparr>"
    using assms
    by (auto simp: loop_invariant_def laser_tag_app_fire_def Let_def effect_defs
        game_state_decrease_ammo_def split: option.splits)
  have enter: "loop_invariant ia
      \<lparr>the_app = snd (laser_tag_app_enter_game_state ia r app), event = e',
       running = (if \<not> fst (laser_tag_app_enter_game_state ia r app) then False else run)\<rparr>"
    for r
    using assms
    by (auto simp: loop_invariant_def laser_tag_app_enter_game_state_def Let_def effect_defs
        game_state_reset_def)
  have same: "loop_invariant ia \<lparr>the_app = app, event = e', running = r\<rparr>" if "r \<longrightarrow> run" for r
    using assms that by (auto simp: loop_invariant_def split: if_splits)
  have reset: "loop_invariant ia
      \<lparr>the_app = app\<lparr>game_state := game_state_reset ia (game_state app),
                     state := LaserTagStateSplashScreen, need_redraw := True\<rparr>,
       event = e', running = run\<rparr>"
    using assms by (auto simp: loop_invariant_def game_state_reset_def)
  have reload: "loop_invariant ia
      \<lparr>the_app = app\<lparr>game_state := game_state_increase_ammo ia (game_state app) ia,
                     need_redraw := True\<rparr>,
       event = e', running = run\<rparr>"
    using assms by (auto simp: loop_invariant_def game_state_increase_ammo_def)
  show ?thesis
    unfolding laser_tag_app_dispatch_def
    using scan fire enter same [of run] same [of False] reset reload
    by (cases "key ev") (simp_all add: Let_def)
qed

lemma poll_invariant:
  assumes "loop_invariant ia \<lparr>the_app = app, event = e, running = run\<rparr>"
  shows "loop_invariant ia \<lparr>the_app = laser_tag_app_poll ia ev app, event = e', running = run\<rparr>"
  using assms
  by (auto simp: loop_invariant_def laser_tag_app_poll_def laser_tag_app_handle_hit_def Let_def
      effect_defs game_state_decrease_health_def game_state_is_game_over_def game_state_reset_def
      split: if_splits)

lemma redraw_invariant:
  assumes "loop_invariant ia \<lparr>the_app = app, event = e, running = run\<rparr>"
  shows "loop_invariant ia \<lparr>the_app = laser_tag_app_redraw app, event = e', running = run\<rparr>"
  using assms
  by (auto simp: loop_invariant_def laser_tag_app_redraw_def Let_def effect_defs)

lemma loop_invariant_event:
  "loop_invariant ia \<lparr>the_app = a, event = e, running = r\<rparr> \<Longrightarrow>
   loop_invariant ia \<lparr>the_app = a, event = e', running = r\<rparr>"
  by (auto simp: loop_invariant_def split: if_splits)

lemma iteration_invariant:
  assumes "loop_invariant ia ml"
  shows "loop_invariant ia (laser_tag_app_iteration ia env ml)"
proof -
  define a where "a = update_infrared_board_status (hit_lost_on_switch env) (the_app ml)"
  define g where "g = furi_message_queue_get (event_queue a) (event ml) 100"
  define b where "b = a\<lparr>event_queue := fst (snd g)\<rparr>"
  define d where "d = (if fst g = FuriStatusOk
            then laser_tag_app_dispatch ia env (snd (snd g)) (running ml) b
            else (b, running ml))"
  have q: "capacity (fst (snd g)) = capacity (event_queue (the_app ml))
      \<and> length (messages (fst (snd g))) \<le> length (messages (event_queue (the_app ml)))"
    by (simp add: g_def a_def furi_message_queue_get_def update_infrared_board_status_def
        log_effect_def split: list.splits)
  have b: "loop_invariant ia \<lparr>the_app = b, event = event ml, running = running ml\<rparr>"
    using assms q
    by (auto simp: loop_invariant_def b_def a_def update_infrared_board_status_def
        log_effect_def)
  have d: "loop_invariant ia \<lparr>the_app = fst d, event = snd (snd g), running = snd d\<rparr>"
  proof (cases "fst g = FuriStatusOk")
    case True
    then have "d = laser_tag_app_dispatch ia env (snd (snd g)) (running ml) b"
      by (simp add: d_def)
    then show ?thesis
      using dispatch_invariant [OF b, of env "snd (snd g)" "snd (snd g)"] by simp
  next
    case False
    then have "d = (b, running ml)"
      by (simp add: d_def)
    then show ?thesis
      using loop_invariant_event [OF b] by simp
  qed
  have it: "laser_tag_app_iteration ia env ml =
      \<lparr>the_app = laser_tag_app_redraw (laser_tag_app_poll ia (snd (snd g)) (fst d)),
       event = snd (snd g), running = snd d\<rparr>"
    unfolding laser_tag_app_iteration_def Let_def a_def [symmetric] g_def [symmetric]
      b_def [symmetric] d_def [symmetric]
    by simp
  show ?thesis
    unfolding it by (rule redraw_invariant [OF poll_invariant [OF d]])
qed

lemma input_callback_invariant:
  assumes "loop_invariant ia (ml\<lparr>the_app := app\<rparr>)"
  shows "loop_invariant ia (ml\<lparr>the_app := laser_tag_app_input_callback ev app\<rparr>)"
  using assms
  by (auto simp: loop_invariant_def laser_tag_app_input_callback_def
      laser_tag_app_input_callback_on_def furi_message_queue_put_def Let_def)

lemma inputs_invariant:
  assumes "loop_invariant ia (ml\<lparr>the_app := app\<rparr>)"
  shows "loop_invariant ia (ml\<lparr>the_app := fold laser_tag_app_input_callback evs app\<rparr>)"
  using assms
proof (induction evs arbitrary: app)
  case Nil
  then show ?case by simp
next
  case (Cons ev evs)
  show ?case
    using Cons.IH [OF input_callback_invariant [OF Cons.prems]] by simp
qed

lemma arrive_invariant:
  assumes "loop_invariant ia ml"
  shows "loop_invariant ia (ml\<lparr>the_app := arrive a (the_app ml)\<rparr>)"
proof -
  let ?t = "if timer_fired a then laser_tag_app_timer_callback (the_app ml) else the_app ml"
  let ?h = "if ir_hit a then infrared_worker_hit ?t else ?t"
  have "loop_invariant ia (ml\<lparr>the_app := ?t\<rparr>)"
    using assms
    by (auto simp: loop_invariant_def laser_tag_app_timer_callback_def Let_def log_effect_def
        game_state_update_time_def)
  then have "loop_invariant ia (ml\<lparr>the_app := ?h\<rparr>)"
    by (auto simp: loop_invariant_def infrared_worker_hit_def split: if_splits)
  then show ?thesis
    unfolding arrive_def Let_def by (rule inputs_invariant)
qed

lemma loop_invariant_kept:
  assumes "loop_invariant ia ml"
  shows "loop_invariant ia (laser_tag_app_loop ia steps ml)"
  using assms
proof (induction steps arbitrary: ml)
  case Nil
  then show ?case by simp
next
  case (Cons x xs)
  show ?case
  proof (cases "running ml")
    case True
    then show ?thesis
      using Cons.IH [OF iteration_invariant [OF arrive_invariant [OF Cons.prems]]] by simp
  next
    case False
    then show ?thesis using Cons.prems by simp
  qed
qed

text \<open>Every state the loop reaches from an allocated application has its ammo and health
  within range, at most 8 events queued, and, while the loop goes on in the game state, a
  controller.\<close>

lemma reachable_invariant:
  assumes "laser_tag_app_alloc ia resources_ok timer_ok = Some app"
  shows "loop_invariant ia
     (laser_tag_app_loop ia steps \<lparr>the_app = app, event = e, running = True\<rparr>)"
proof (rule loop_invariant_kept)
  show "loop_invariant ia \<lparr>the_app = app, event = e, running = True\<rparr>"
    using assms
    by (auto simp: loop_invariant_def laser_tag_app_alloc_def game_state_alloc_def
        furi_message_queue_alloc_def split: if_splits)
qed

text \<open>A whole session from the allocated application, with 100 for \<open>INITIAL_AMMO\<close>: the OK
  press starts the game, the tenth hit ends it with two requests of the failure effect, and
  the next iteration, in which nothing at all arrives, already shows the splash screen again
  (the local \<open>event\<close> still holds the OK press that started the game).\<close>

lemma session_from_alloc:
  "laser_tag_app_alloc 100 True True = Some fresh_app
   \<and> state (the_app (laser_tag_app_loop 100 (start_press # replicate 9 one_hit) first_run)) =
       LaserTagStateGame
   \<and> state (the_app (laser_tag_app_loop 100 (start_press # replicate 10 one_hit) first_run)) =
       LaserTagStateGameOver
   \<and> count_list (effects (the_app
         (laser_tag_app_loop 100 (start_press # replicate 10 one_hit) first_run)))
       (Notification sequence_error) = 2
   \<and> state (the_app
         (laser_tag_app_loop 100 (start_press # replicate 10 one_hit @ [idle]) first_run)) =
       LaserTagStateSplashScreen"
  by code_simp

end
